theory Spec2Isabelle
  imports Complex_Main "HOL-Library.AList"
begin

section \<open>Common vocabulary: paths, file contents, exceptions\<close>

text \<open>
  Paths are Python \<open>str\<close> values and file contents are byte strings; both are character
  lists here (an Isabelle \<open>char\<close> is one byte).
\<close>

type_synonym path = string
type_synonym bytes = string

text \<open>
  \<open>OSError\<close> and the two subclasses the source names, each with the text of
  \<open>str(e)\<close>.  The operating-system calls of the modelled code (\<open>os.stat\<close>,
  \<open>os.path.getsize\<close>, \<open>open\<close>, \<open>read\<close>, \<open>os.remove\<close>, \<open>shutil\<close>) raise
  nothing else on the path strings that \<open>os.walk\<close> and \<open>os.path.join\<close> produce.
\<close>

datatype os_error =
    OSError string
  | PermissionError string
  | FileNotFoundError string


section \<open>Strings and paths\<close>

text \<open>
  \<open>str.lower\<close> on the ASCII letters, \<open>str.startswith\<close>, the substring test
  \<open>pat in s\<close>, and \<open>os.path.basename\<close> / \<open>os.path.join\<close> with the separator \<open>/\<close>.
\<close>

definition lower_char :: "char \<Rightarrow> char" where
  "lower_char c =
     (case map_of (zip ''ABCDEFGHIJKLMNOPQRSTUVWXYZ'' ''abcdefghijklmnopqrstuvwxyz'') c of
        Some d \<Rightarrow> d
      | None \<Rightarrow> c)"

definition lower :: "string \<Rightarrow> string" where
  "lower s = map lower_char s"

definition startswith :: "string \<Rightarrow> string \<Rightarrow> bool" where
  "startswith s pat = (take (length pat) s = pat)"

fun contains :: "string \<Rightarrow> string \<Rightarrow> bool" where
  "contains pat [] = (pat = [])"
| "contains pat (c # cs) = (startswith (c # cs) pat \<or> contains pat cs)"

definition basename :: "path \<Rightarrow> string" where
  "basename p = rev (takeWhile (\<lambda>c. c \<noteq> CHR ''/'') (rev p))"

definition join :: "path \<Rightarrow> string \<Rightarrow> path" where
  "join a b =
     (if startswith b ''/'' then b
      else if a = [] \<or> last a = CHR ''/'' then a @ b
      else a @ ''/'' @ b)"

text \<open>
  A directory tree: the names of the files of a directory and its subdirectories by name.
  \<open>os.walk\<close> visits it top-down and yields \<open>(dirpath, dirnames, filenames)\<close> for each
  directory; it then descends into the subdirectories that the loop body has left in
  \<open>dirnames\<close>, which is the test \<open>keep\<close> here (\<open>\<lambda>d. True\<close> when the body leaves the
  list alone).
\<close>

datatype tree = Dir (dir_files: "string list") (dir_subdirs: "(string \<times> tree) list")

fun walk :: "(string \<Rightarrow> bool) \<Rightarrow> path \<Rightarrow> tree \<Rightarrow> (path \<times> string list \<times> string list) list"
  and walk_subdirs :: "(string \<Rightarrow> bool) \<Rightarrow> path \<Rightarrow> (string \<times> tree) list \<Rightarrow> (path \<times> string list \<times> string list) list" where
  "walk keep dirpath (Dir files subdirs) =
     (dirpath, map fst subdirs, files) # walk_subdirs keep dirpath subdirs"
| "walk_subdirs keep dirpath [] = []"
| "walk_subdirs keep dirpath ((name, t) # rest) =
     (if keep name then walk keep (join dirpath name) t else [])
     @ walk_subdirs keep dirpath rest"

section \<open>browser\_cleaner.py: the structured-store mutator\<close>

text \<open>
  The part of the disk the mutator touches: regular files, each with its content.
  \<open>None\<close> means that no file has that path.
\<close>

type_synonym filesystem = "path \<Rightarrow> bytes option"












section \<open>system\_utils.py: the temporary-file cleaner (class FileCleanup)\<close>

text \<open>
  What the operating system answers while the cleaner runs: whether a path exists, the
  modification time from \<open>os.stat\<close> and the clock reading of \<open>datetime.now()\<close> at the
  moment that path is checked (both in microseconds, the resolution of \<open>timedelta\<close>),
  the size from \<open>os.path.getsize\<close>, and the outcome of each successive call of
  \<open>os.remove\<close> on a path (\<open>None\<close>: the file was removed).
\<close>

record cleaner_os =
  os_path_exists :: "path \<Rightarrow> bool"
  os_stat_mtime :: "path \<Rightarrow> os_error + int"
  os_getsize :: "path \<Rightarrow> os_error + int"
  os_remove_at :: "path \<Rightarrow> nat \<Rightarrow> os_error option"
  datetime_now :: "path \<Rightarrow> int"

text \<open>
  The counters of \<open>FileCleanup\<close> together with the \<open>errors\<close> list that
  \<open>clean_temp_files\<close> threads through, and the log of the paths handed to
  \<open>_delete_file_with_retry\<close>, that is, on which \<open>os.remove\<close> was called.
\<close>

record file_cleanup =
  cleaned_size :: int
  cleaned_files :: nat
  skipped_files :: nat
  permission_errors :: nat
  in_use_errors :: nat
  errors :: "string list"
  remove_calls :: "path list"

text \<open>
  \<open>_is_file_old_enough\<close>; \<open>min_file_age\<close> is \<open>timedelta(hours=self.min_file_age_hours)\<close>,
  3600000000 microseconds by default.
\<close>

definition is_file_old_enough :: "cleaner_os \<Rightarrow> int \<Rightarrow> path \<Rightarrow> bool" where
  "is_file_old_enough os min_file_age file_path =
     (case os_stat_mtime os file_path of
        Inl e \<Rightarrow> False
      | Inr st_mtime \<Rightarrow> datetime_now os file_path - st_mtime > min_file_age)"

definition critical_patterns :: "string list" where
  "critical_patterns =
     [''desktop.ini'', ''thumbs.db'', ''.sys'', ''.dll'', ''.exe'',
      ''hiberfil.sys'', ''pagefile.sys'', ''swapfile.sys'']"

definition critical_dirs :: "string list" where
  "critical_dirs =
     [''system32'', ''syswow64'', ''windows'' @ [CHR 0x5C] @ ''system'', ''program files'']"

definition is_system_critical_file :: "path \<Rightarrow> bool" where
  "is_system_critical_file file_path =
     (let filename = lower (basename file_path) in
      if list_ex (\<lambda>pattern. contains pattern filename) critical_patterns then True
      else list_ex (\<lambda>critical_dir. contains critical_dir (lower file_path)) critical_dirs)"

definition is_in_use :: "string \<Rightarrow> bool" where
  "is_in_use msg = (contains ''WinError 32'' msg \<or> contains ''being used by another process'' msg)"

text \<open>
  \<open>_delete_file_with_retry\<close>: the \<open>for attempt in range(max_retries)\<close> loop.  The
  \<open>os.chmod\<close> tried first on Windows swallows its own errors and decides nothing.  An
  in-use \<open>PermissionError\<close> is retried only while \<open>attempt < max_retries - 1\<close>; any
  other \<open>PermissionError\<close>, and the in-use one of the last attempt, reaches \<open>raise e\<close>.
\<close>

function delete_attempts :: "cleaner_os \<Rightarrow> path \<Rightarrow> nat \<Rightarrow> nat \<Rightarrow> os_error + bool" where
  "delete_attempts os file_path max_retries attempt =
     (if attempt < max_retries then
        (case os_remove_at os file_path attempt of
           None \<Rightarrow> Inr True
         | Some (PermissionError msg) \<Rightarrow>
             (if is_in_use msg \<and> attempt < max_retries - 1
              then delete_attempts os file_path max_retries (attempt + 1)
              else Inl (PermissionError msg))
         | Some (OSError msg) \<Rightarrow> Inr False
         | Some (FileNotFoundError msg) \<Rightarrow> Inr False)
      else Inr False)"
  by pat_completeness auto
termination
  by (relation "measure (\<lambda>(os, file_path, max_retries, attempt). max_retries - attempt)") auto

definition delete_file_with_retry :: "cleaner_os \<Rightarrow> path \<Rightarrow> nat \<Rightarrow> os_error + bool" where
  "delete_file_with_retry os file_path max_retries = delete_attempts os file_path max_retries 0"

text \<open>
  The handlers of the per-file \<open>try\<close> of \<open>_clean_directory_smart\<close>:
  \<open>except PermissionError\<close> counts and logs, \<open>except (OSError, FileNotFoundError)\<close>
  continues.  The third handler, \<open>except Exception\<close>, and the handlers around the walk
  and around each temp directory catch what is not an \<open>OSError\<close>; the calls of the body
  raise nothing of that kind.
\<close>

definition on_error :: "file_cleanup \<Rightarrow> path \<Rightarrow> os_error \<Rightarrow> file_cleanup" where
  "on_error s file_path e =
     (case e of
        PermissionError msg \<Rightarrow>
          s\<lparr>permission_errors := permission_errors s + 1,
            in_use_errors := (if is_in_use msg then in_use_errors s + 1 else in_use_errors s),
            errors := (if length (errors s) < 5
                       then errors s @ [''Cannot delete '' @ file_path @ '': '' @ msg]
                       else errors s)\<rparr>
      | OSError msg \<Rightarrow> s
      | FileNotFoundError msg \<Rightarrow> s)"

text \<open>The body of the loop over the files of one directory.\<close>

definition clean_file :: "cleaner_os \<Rightarrow> int \<Rightarrow> file_cleanup \<Rightarrow> path \<Rightarrow> file_cleanup" where
  "clean_file os min_file_age s file_path =
     (if \<not> os_path_exists os file_path then s
      else if \<not> is_file_old_enough os min_file_age file_path
        then s\<lparr>skipped_files := skipped_files s + 1\<rparr>
      else if is_system_critical_file file_path
        then s\<lparr>skipped_files := skipped_files s + 1\<rparr>
      else
        (case os_getsize os file_path of
           Inl e \<Rightarrow> on_error s file_path e
         | Inr file_size \<Rightarrow>
             (let s1 = s\<lparr>remove_calls := remove_calls s @ [file_path]\<rparr> in
              case delete_file_with_retry os file_path 3 of
                Inr True \<Rightarrow> s1\<lparr>cleaned_size := cleaned_size s1 + file_size,
                                cleaned_files := cleaned_files s1 + 1\<rparr>
              | Inr False \<Rightarrow> s1\<lparr>skipped_files := skipped_files s1 + 1\<rparr>
              | Inl e \<Rightarrow> on_error s1 file_path e)))"

fun clean_files :: "cleaner_os \<Rightarrow> int \<Rightarrow> file_cleanup \<Rightarrow> path \<Rightarrow> string list \<Rightarrow> file_cleanup" where
  "clean_files os min_file_age s dirpath [] = s"
| "clean_files os min_file_age s dirpath (file # files) =
     clean_files os min_file_age (clean_file os min_file_age s (join dirpath file)) dirpath files"

text \<open>
  The loop over \<open>os.walk(directory)\<close>.  \<open>_cleanup_empty_directories\<close>, called after the
  files of each directory, only calls \<open>os.rmdir\<close> on empty directories: it removes no
  file and changes no counter.
\<close>

fun clean_walk :: "cleaner_os \<Rightarrow> int \<Rightarrow> file_cleanup \<Rightarrow> (path \<times> string list \<times> string list) list \<Rightarrow> file_cleanup" where
  "clean_walk os min_file_age s [] = s"
| "clean_walk os min_file_age s ((dirpath, dirs, files) # rest) =
     clean_walk os min_file_age (clean_files os min_file_age s dirpath files) rest"

definition clean_directory_smart :: "cleaner_os \<Rightarrow> int \<Rightarrow> file_cleanup \<Rightarrow> path \<times> tree \<Rightarrow> file_cleanup" where
  "clean_directory_smart os min_file_age s directory =
     clean_walk os min_file_age s (walk (\<lambda>d. True) (fst directory) (snd directory))"

definition fresh_cleanup :: file_cleanup where
  "fresh_cleanup =
     \<lparr>cleaned_size = 0, cleaned_files = 0, skipped_files = 0, permission_errors = 0,
      in_use_errors = 0, errors = [], remove_calls = []\<rparr>"

fun clean_dirs :: "cleaner_os \<Rightarrow> int \<Rightarrow> file_cleanup \<Rightarrow> (path \<times> tree) list \<Rightarrow> file_cleanup" where
  "clean_dirs os min_file_age s [] = s"
| "clean_dirs os min_file_age s (temp_dir # temp_dirs) =
     clean_dirs os min_file_age (clean_directory_smart os min_file_age s temp_dir) temp_dirs"

definition clean_temp_files :: "cleaner_os \<Rightarrow> int \<Rightarrow> (path \<times> tree) list \<Rightarrow> file_cleanup" where
  "clean_temp_files os min_file_age temp_dirs = clean_dirs os min_file_age fresh_cleanup temp_dirs"

section \<open>duplicate\_finder.py: the duplicate index (class DuplicateFinder)\<close>

text \<open>
  The result of \<open>os.stat\<close>: the size in bytes and the three timestamps.  Timestamps
  are Python floats; only their order and equality are used, so they are integers here.
\<close>

record stat_result =
  st_size :: int
  st_mtime :: int
  st_atime :: int
  st_ctime :: int

text \<open>
  The filesystem as the scan sees it, unchanged for the duration of one scan:
  \<open>os.stat\<close> on a path, the bytes that \<open>open(path, "rb")\<close> and the \<open>read\<close> calls
  deliver up to end of file (or the error one of them raises), and the function computed by
  \<open>hashlib.md5\<close> followed by \<open>hexdigest()\<close>, which is a parameter.  The bytes read need
  not be as many as \<open>st_size\<close> says: a file may grow between the two calls.
\<close>

record finder_os =
  os_stat :: "path \<Rightarrow> os_error + stat_result"
  read_file :: "path \<Rightarrow> os_error + bytes"
  md5_hexdigest :: "bytes \<Rightarrow> string"

definition getsize :: "finder_os \<Rightarrow> path \<Rightarrow> os_error + int" where
  "getsize os p = (case os_stat os p of Inl e \<Rightarrow> Inl e | Inr st \<Rightarrow> Inr (st_size st))"

definition getmtime :: "finder_os \<Rightarrow> path \<Rightarrow> os_error + int" where
  "getmtime os p = (case os_stat os p of Inl e \<Rightarrow> Inl e | Inr st \<Rightarrow> Inr (st_mtime st))"

text \<open>
  The dictionary built by \<open>get_file_info\<close>.  The three \<open>time.ctime\<close> strings are kept as
  the timestamps they render; \<open>size_mb\<close> is \<open>fi_size / 1024 ** 2\<close> and is not stored.
\<close>

record file_info =
  fi_path :: path
  fi_size :: int
  fi_modified :: int
  fi_accessed :: int
  fi_created :: int

text \<open>
  The fields of \<open>DuplicateFinder\<close>.  Both dictionaries are association lists in
  insertion order, as a Python \<open>dict\<close> iterates.
\<close>

record duplicate_finder =
  file_hashes :: "(string \<times> file_info list) list"
  scanned_files :: nat
  total_files :: nat
  duplicates_found :: "(string \<times> file_info list) list"
  total_duplicate_size :: int

definition max_file_size :: nat where
  "max_file_size = 100 * 1024 * 1024"

text \<open>
  The loop \<open>for chunk in iter(lambda: f.read(4096), b"")\<close> of \<open>calculate_file_hash\<close>:
  \<open>unread\<close> is what the file still holds, \<open>hashed\<close> the bytes passed to
  \<open>hash_md5.update\<close> so far.  \<open>None\<close> is the \<open>return None\<close> of the re-check.
\<close>

function hash_chunks :: "bytes \<Rightarrow> bytes \<Rightarrow> nat \<Rightarrow> bytes option" where
  "hash_chunks unread hashed bytes_read =
     (let chunk = take 4096 unread in
      if chunk = [] then Some hashed
      else if bytes_read + length chunk > max_file_size then None
      else hash_chunks (drop 4096 unread) (hashed @ chunk) (bytes_read + length chunk))"
  by pat_completeness auto

termination
  by (relation "measure (\<lambda>(unread, hashed, bytes_read). length unread)") auto

text \<open>
  The body of the \<open>try\<close> of \<open>calculate_file_hash\<close>, and the function itself, whose
  \<open>except (OSError, PermissionError)\<close> turns every error into \<open>None\<close>.
\<close>

definition calculate_file_hash_try :: "finder_os \<Rightarrow> path \<Rightarrow> os_error + string option" where
  "calculate_file_hash_try os file_path =
     (case getsize os file_path of
        Inl e \<Rightarrow> Inl e
      | Inr file_size \<Rightarrow>
          (if file_size > int max_file_size then Inr None
           else
             (case read_file os file_path of
                Inl e \<Rightarrow> Inl e
              | Inr content \<Rightarrow>
                  (case hash_chunks content [] 0 of
                     None \<Rightarrow> Inr None
                   | Some hashed \<Rightarrow> Inr (Some (md5_hexdigest os hashed))))))"

definition calculate_file_hash :: "finder_os \<Rightarrow> path \<Rightarrow> string option" where
  "calculate_file_hash os file_path =
     (case calculate_file_hash_try os file_path of
        Inl e \<Rightarrow> None
      | Inr r \<Rightarrow> r)"

definition get_file_info :: "finder_os \<Rightarrow> path \<Rightarrow> file_info option" where
  "get_file_info os file_path =
     (case os_stat os file_path of
        Inl e \<Rightarrow> None
      | Inr st \<Rightarrow>
          Some \<lparr>fi_path = file_path, fi_size = st_size st, fi_modified = st_mtime st,
                fi_accessed = st_atime st, fi_created = st_ctime st\<rparr>)"

text \<open>
  The pruning of \<open>dirs[:]\<close>, the same in both walks, and \<open>Path(file_path).suffix\<close>:
  the part of the final component from its last dot, empty when that dot is the first or
  the last character.
\<close>

definition skipped_dirs :: "string list" where
  "skipped_dirs =
     [''system volume information'', ''$recycle.bin'', ''windows'', ''program files'',
      ''program files (x86)'',
      ''appdata'' @ [CHR 0x5C] @ ''local'' @ [CHR 0x5C] @ ''temp'', ''temp'']"

definition keep_dir :: "string \<Rightarrow> bool" where
  "keep_dir d = (\<not> startswith d ''.'' \<and> lower d \<notin> set skipped_dirs)"

definition suffix :: "path \<Rightarrow> string" where
  "suffix file_path =
     (let name = basename file_path;
          ext = rev (takeWhile (\<lambda>c. c \<noteq> CHR ''.'') (rev name))
      in if CHR ''.'' \<in> set name \<and> length ext + 1 < length name \<and> ext \<noteq> []
         then CHR ''.'' # ext else [])"

text \<open>
  The extension filter: \<open>if extensions:\<close> is false for \<open>None\<close> and for the empty set.
\<close>

definition extension_ok :: "string set option \<Rightarrow> path \<Rightarrow> bool" where
  "extension_ok extensions file_path =
     (case extensions of
        None \<Rightarrow> True
      | Some exts \<Rightarrow> exts = {} \<or> lower (suffix file_path) \<in> exts)"

text \<open>
  \<open>count_files_in_directory\<close>.  \<open>Inl\<close> is the \<open>return max_files\<close> from inside the
  loops, \<open>Inr\<close> the count when the loop over one directory ends.
\<close>

definition max_files :: nat where
  "max_files = 10000"

fun count_files :: "finder_os \<Rightarrow> string set option \<Rightarrow> int \<Rightarrow> path \<Rightarrow> string list \<Rightarrow> nat \<Rightarrow> nat + nat" where
  "count_files os extensions min_size dirpath [] count = Inr count"
| "count_files os extensions min_size dirpath (name # files) count =
     (if count \<ge> max_files then Inl max_files
      else if startswith name ''.'' then count_files os extensions min_size dirpath files count
      else
        (case getsize os (join dirpath name) of
           Inl e \<Rightarrow> count_files os extensions min_size dirpath files count
         | Inr file_size \<Rightarrow>
             (if file_size < min_size then count_files os extensions min_size dirpath files count
              else if \<not> extension_ok extensions (join dirpath name)
                then count_files os extensions min_size dirpath files count
              else count_files os extensions min_size dirpath files (count + 1))))"

fun count_walk :: "finder_os \<Rightarrow> string set option \<Rightarrow> int \<Rightarrow> (path \<times> string list \<times> string list) list \<Rightarrow> nat \<Rightarrow> nat" where
  "count_walk os extensions min_size [] count = count"
| "count_walk os extensions min_size ((dirpath, dirs, files) # rest) count =
     (case count_files os extensions min_size dirpath files count of
        Inl returned \<Rightarrow> returned
      | Inr count' \<Rightarrow> count_walk os extensions min_size rest count')"

definition count_files_in_directory :: "finder_os \<Rightarrow> path \<times> tree \<Rightarrow> string set option \<Rightarrow> int \<Rightarrow> nat" where
  "count_files_in_directory os directory extensions min_size =
     count_walk os extensions min_size (walk keep_dir (fst directory) (snd directory)) 0"

text \<open>
  \<open>self.file_hashes[file_hash].append(file_info)\<close> on a \<open>defaultdict(list)\<close>.
\<close>

fun append_to_bucket :: "string \<Rightarrow> file_info \<Rightarrow> (string \<times> file_info list) list \<Rightarrow> (string \<times> file_info list) list" where
  "append_to_bucket file_hash file_info [] = [(file_hash, [file_info])]"
| "append_to_bucket file_hash file_info ((k, bucket) # rest) =
     (if k = file_hash then (k, bucket @ [file_info]) # rest
      else (k, bucket) # append_to_bucket file_hash file_info rest)"

text \<open>
  The scanning loops of \<open>scan_directory\<close>, with \<open>progress_callback\<close> left at its default
  \<open>None\<close>.  \<open>record_file\<close> is the part of the loop body after the filters;
  \<open>scan_files\<close> is the loop over the files of one directory, whose \<open>break\<close> returns the
  state; \<open>scan_walk\<close> is the loop over \<open>os.walk\<close> with its own \<open>break\<close>.
\<close>

definition max_scan_files :: nat where
  "max_scan_files = 10000"

definition record_file :: "finder_os \<Rightarrow> duplicate_finder \<Rightarrow> path \<Rightarrow> duplicate_finder" where
  "record_file os s file_path =
     (let s1 =
        (case calculate_file_hash os file_path of
           None \<Rightarrow> s
         | Some file_hash \<Rightarrow>
             (if file_hash = [] then s
              else
                (case get_file_info os file_path of
                   None \<Rightarrow> s
                 | Some file_info \<Rightarrow>
                     s\<lparr>file_hashes := append_to_bucket file_hash file_info (file_hashes s)\<rparr>)))
      in s1\<lparr>scanned_files := scanned_files s1 + 1\<rparr>)"

fun scan_files :: "finder_os \<Rightarrow> string set option \<Rightarrow> int \<Rightarrow> path \<Rightarrow> string list \<Rightarrow> duplicate_finder \<Rightarrow> duplicate_finder" where
  "scan_files os extensions min_size dirpath [] s = s"
| "scan_files os extensions min_size dirpath (name # files) s =
     (if scanned_files s \<ge> max_scan_files then s
      else if startswith name ''.'' then scan_files os extensions min_size dirpath files s
      else
        (case getsize os (join dirpath name) of
           Inl e \<Rightarrow> scan_files os extensions min_size dirpath files s
         | Inr file_size \<Rightarrow>
             (if file_size < min_size then scan_files os extensions min_size dirpath files s
              else if \<not> extension_ok extensions (join dirpath name)
                then scan_files os extensions min_size dirpath files s
              else scan_files os extensions min_size dirpath files
                     (record_file os s (join dirpath name)))))"

fun scan_walk :: "finder_os \<Rightarrow> string set option \<Rightarrow> int \<Rightarrow> (path \<times> string list \<times> string list) list \<Rightarrow> duplicate_finder \<Rightarrow> duplicate_finder" where
  "scan_walk os extensions min_size [] s = s"
| "scan_walk os extensions min_size ((dirpath, dirs, files) # rest) s =
     (let s' = scan_files os extensions min_size dirpath files s in
      if scanned_files s' \<ge> max_scan_files then s'
      else scan_walk os extensions min_size rest s')"

text \<open>
  \<open>files.sort(key=lambda x: os.path.getmtime(x['path']), reverse=True)\<close>: the keys are
  computed first, and an error of \<open>os.path.getmtime\<close> leaves the sort; otherwise the sort
  is stable and descending, which is an ascending stable sort on the negated key.
\<close>

fun first_error :: "('e + 'a) list \<Rightarrow> 'e option" where
  "first_error [] = None"
| "first_error (Inl e # rs) = Some e"
| "first_error (Inr v # rs) = first_error rs"

definition mtime_key :: "finder_os \<Rightarrow> file_info \<Rightarrow> int" where
  "mtime_key os x = (case getmtime os (fi_path x) of Inl e \<Rightarrow> 0 | Inr t \<Rightarrow> t)"

definition sort_newest_first :: "finder_os \<Rightarrow> file_info list \<Rightarrow> os_error + file_info list" where
  "sort_newest_first os files =
     (case first_error (map (\<lambda>x. getmtime os (fi_path x)) files) of
        Some e \<Rightarrow> Inl e
      | None \<Rightarrow> Inr (sort_key (\<lambda>x. - mtime_key os x) files))"

text \<open>
  The loop over \<open>self.file_hashes.items()\<close>.  The sort is in place, so the bucket of
  \<open>file_hashes\<close> is the sorted list too; \<open>duplicates[file_hash] = files\<close> is a dictionary
  assignment.  No handler surrounds this loop: an error of the sort leaves
  \<open>scan_directory\<close>.
\<close>

fun find_duplicates :: "finder_os \<Rightarrow> (string \<times> file_info list) list \<Rightarrow> duplicate_finder \<Rightarrow> (string \<times> file_info list) list \<Rightarrow> duplicate_finder \<times> (os_error + (string \<times> file_info list) list)" where
  "find_duplicates os [] s duplicates = (s, Inr duplicates)"
| "find_duplicates os ((file_hash, files) # items) s duplicates =
     (if length files > 1 then
        (case sort_newest_first os files of
           Inl e \<Rightarrow> (s, Inl e)
         | Inr sorted_files \<Rightarrow>
             find_duplicates os items
               (s\<lparr>file_hashes := AList.update file_hash sorted_files (file_hashes s),
                  total_duplicate_size :=
                    total_duplicate_size s + sum_list (map fi_size (tl sorted_files))\<rparr>)
               (AList.update file_hash sorted_files duplicates))
      else find_duplicates os items s duplicates)"

definition scan_directory :: "finder_os \<Rightarrow> duplicate_finder \<Rightarrow> path \<times> tree \<Rightarrow> string set option \<Rightarrow> int \<Rightarrow> duplicate_finder \<times> (os_error + (string \<times> file_info list) list)" where
  "scan_directory os s directory extensions min_size =
     (let s1 = s\<lparr>file_hashes := [], scanned_files := 0, duplicates_found := [],
                 total_duplicate_size := 0\<rparr>;
          s2 = s1\<lparr>total_files := count_files_in_directory os directory extensions min_size\<rparr>
      in if total_files s2 = 0 then (s2, Inr [])
         else
           (let s3 = scan_walk os extensions min_size
                       (walk keep_dir (fst directory) (snd directory)) s2
            in case find_duplicates os (file_hashes s3) s3 [] of
                 (s4, Inl e) \<Rightarrow> (s4, Inl e)
               | (s4, Inr duplicates) \<Rightarrow> (s4\<lparr>duplicates_found := duplicates\<rparr>, Inr duplicates)))"

text \<open>
  \<open>delete_selected_duplicates\<close>.  It works on the disk of regular files; \<open>denied\<close> says
  for which paths \<open>os.remove\<close> raises, and with what.  The result dictionary holds the
  count, the freed bytes (\<open>deleted_size_mb\<close> is that number divided by \<open>1024 ** 2\<close>) and
  the error texts.  The finder is threaded through the loop as \<open>self\<close>.
\<close>

record delete_result =
  deleted_files :: nat
  deleted_size :: int
  delete_errors :: "string list"

definition str :: "os_error \<Rightarrow> string" where
  "str e = (case e of OSError msg \<Rightarrow> msg | PermissionError msg \<Rightarrow> msg | FileNotFoundError msg \<Rightarrow> msg)"

definition remove_file :: "(path \<Rightarrow> os_error option) \<Rightarrow> filesystem \<Rightarrow> path \<Rightarrow> os_error + filesystem" where
  "remove_file denied fs p =
     (case denied p of
        Some e \<Rightarrow> Inl e
      | None \<Rightarrow>
          (case fs p of
             None \<Rightarrow> Inl (FileNotFoundError p)
           | Some content \<Rightarrow> Inr (fs(p := None))))"

fun delete_files :: "(path \<Rightarrow> os_error option) \<Rightarrow> path list \<Rightarrow> duplicate_finder \<times> filesystem \<times> delete_result \<Rightarrow> duplicate_finder \<times> filesystem \<times> delete_result" where
  "delete_files denied [] state = state"
| "delete_files denied (file_path # selected_files) (s, fs, r) =
     (case fs file_path of
        None \<Rightarrow> delete_files denied selected_files (s, fs, r)
      | Some content \<Rightarrow>
          (let file_size = int (length content) in
           case remove_file denied fs file_path of
             Inl e \<Rightarrow>
               delete_files denied selected_files
                 (s, fs, r\<lparr>delete_errors := delete_errors r
                             @ [''Cannot delete '' @ file_path @ '': '' @ str e]\<rparr>)
           | Inr fs' \<Rightarrow>
               delete_files denied selected_files
                 (s, fs', r\<lparr>deleted_files := deleted_files r + 1,
                             deleted_size := deleted_size r + file_size\<rparr>)))"

definition delete_selected_duplicates :: "(path \<Rightarrow> os_error option) \<Rightarrow> duplicate_finder \<Rightarrow> filesystem \<Rightarrow> path list \<Rightarrow> duplicate_finder \<times> filesystem \<times> delete_result" where
  "delete_selected_duplicates denied s fs selected_files =
     delete_files denied selected_files
       (s, fs, \<lparr>deleted_files = 0, deleted_size = 0, delete_errors = []\<rparr>)"

text \<open>
  \<open>get_duplicate_summary\<close>.  The dictionary returned when nothing was found has no
  \<open>scanned_files\<close> entry.  The two savings are true divisions by powers of two, exact
  rationals here.
\<close>

record duplicate_summary =
  total_duplicates :: int
  duplicate_groups :: nat
  potential_savings_mb :: rat
  potential_savings_gb :: rat
  summary_scanned_files :: "nat option"

definition get_duplicate_summary :: "duplicate_finder \<Rightarrow> duplicate_summary" where
  "get_duplicate_summary s =
     (if duplicates_found s = [] then
        \<lparr>total_duplicates = 0, duplicate_groups = 0, potential_savings_mb = 0,
         potential_savings_gb = 0, summary_scanned_files = None\<rparr>
      else
        \<lparr>total_duplicates = sum_list (map (\<lambda>group. int (length (snd group)) - 1) (duplicates_found s)),
         duplicate_groups = length (duplicates_found s),
         potential_savings_mb = of_int (total_duplicate_size s) / 1024 ^ 2,
         potential_savings_gb = of_int (total_duplicate_size s) / 1024 ^ 3,
         summary_scanned_files = Some (scanned_files s)\<rparr>)"

text \<open>
  Vocabulary for the properties.  A file is a candidate when it passes the filters that
  both walks apply before counting it; \<open>eligible_files\<close> lists the candidates of a walk.
\<close>

definition is_candidate :: "finder_os \<Rightarrow> string set option \<Rightarrow> int \<Rightarrow> path \<Rightarrow> string \<Rightarrow> bool" where
  "is_candidate os extensions min_size dirpath name =
     (\<not> startswith name ''.'' \<and>
      (case getsize os (join dirpath name) of
         Inl e \<Rightarrow> False
       | Inr file_size \<Rightarrow> \<not> file_size < min_size \<and> extension_ok extensions (join dirpath name)))"

fun eligible_files :: "finder_os \<Rightarrow> string set option \<Rightarrow> int \<Rightarrow> (path \<times> string list \<times> string list) list \<Rightarrow> path list" where
  "eligible_files os extensions min_size [] = []"
| "eligible_files os extensions min_size ((dirpath, dirs, files) # rest) =
     map (join dirpath) (filter (is_candidate os extensions min_size dirpath) files)
     @ eligible_files os extensions min_size rest"

text \<open>
  \<open>recorded os h x\<close>: the file information \<open>x\<close> is what \<open>get_file_info\<close> returns for
  its path, and that file hashes to \<open>h\<close>.  \<open>groups_of\<close> is the returned mapping as a
  function of the buckets, \<open>reclaimable\<close> the sum of the sizes of all members but the
  first of each group.
\<close>

definition recorded :: "finder_os \<Rightarrow> string \<Rightarrow> file_info \<Rightarrow> bool" where
  "recorded os h x =
     (h \<noteq> [] \<and> calculate_file_hash os (fi_path x) = Some h
      \<and> get_file_info os (fi_path x) = Some x)"

definition hashes_ok :: "finder_os \<Rightarrow> (string \<times> file_info list) list \<Rightarrow> bool" where
  "hashes_ok os hs = (distinct (map fst hs) \<and> (\<forall>(h, b) \<in> set hs. \<forall>x \<in> set b. recorded os h x))"

definition sorted_bucket :: "finder_os \<Rightarrow> file_info list \<Rightarrow> file_info list" where
  "sorted_bucket os b = sort_key (\<lambda>x. - mtime_key os x) b"

definition sort_if_dup :: "finder_os \<Rightarrow> string \<times> file_info list \<Rightarrow> string \<times> file_info list" where
  "sort_if_dup os item = (fst item, if length (snd item) > 1 then sorted_bucket os (snd item) else snd item)"

definition groups_of :: "finder_os \<Rightarrow> (string \<times> file_info list) list \<Rightarrow> (string \<times> file_info list) list" where
  "groups_of os items = map (sort_if_dup os) (filter (\<lambda>item. length (snd item) > 1) items)"

definition reclaimable :: "(string \<times> file_info list) list \<Rightarrow> int" where
  "reclaimable groups = sum_list (map (\<lambda>group. sum_list (map fi_size (tl (snd group)))) groups)"

section \<open>Concrete inputs\<close>



text \<open>A temp directory whose only file stays locked by another process.\<close>

definition in_use_message :: string where
  "in_use_message = ''[WinError 32] The process cannot access the file because it is being used by another process''"

definition locked_os :: cleaner_os where
  "locked_os =
     \<lparr>os_path_exists = (\<lambda>p. True),
      os_stat_mtime = (\<lambda>p. Inr 0),
      os_getsize = (\<lambda>p. Inr 10),
      os_remove_at = (\<lambda>p attempt. Some (PermissionError in_use_message)),
      datetime_now = (\<lambda>p. 7200000000)\<rparr>"



text \<open>
  A fresh \<open>DuplicateFinder\<close>, and the directory of three files: \<open>a.txt\<close> and \<open>b.txt\<close>
  hold the same byte, \<open>b.txt\<close> is the newer one, \<open>c.txt\<close> holds another byte.
\<close>

definition new_finder :: duplicate_finder where
  "new_finder = \<lparr>file_hashes = [], scanned_files = 0, total_files = 0, duplicates_found = [],
                 total_duplicate_size = 0\<rparr>"

definition file_stat :: "int \<Rightarrow> int \<Rightarrow> stat_result" where
  "file_stat n t = \<lparr>st_size = n, st_mtime = t, st_atime = t, st_ctime = t\<rparr>"

definition scenario_os :: "(bytes \<Rightarrow> string) \<Rightarrow> finder_os" where
  "scenario_os md5 =
     \<lparr>os_stat = (\<lambda>p. if p = ''/data/a.txt'' then Inr (file_stat 1 1577836800)
                     else if p = ''/data/b.txt'' then Inr (file_stat 1 1672531200)
                     else if p = ''/data/c.txt'' then Inr (file_stat 1 1600000000)
                     else Inl (FileNotFoundError p)),
      read_file = (\<lambda>p. if p = ''/data/a.txt'' then Inr ''X''
                       else if p = ''/data/b.txt'' then Inr ''X''
                       else if p = ''/data/c.txt'' then Inr ''Y''
                       else Inl (FileNotFoundError p)),
      md5_hexdigest = md5\<rparr>"

text \<open>
  A file of exactly 100 MiB.
\<close>

definition cutoff_os :: finder_os where
  "cutoff_os =
     \<lparr>os_stat = (\<lambda>p. Inr (file_stat 104857600 0)),
      read_file = (\<lambda>p. Inr (replicate 104857600 (CHR ''a''))),
      md5_hexdigest = (\<lambda>content. ''d41d8cd9'')\<rparr>"

definition info :: "path \<Rightarrow> int \<Rightarrow> int \<Rightarrow> file_info" where
  "info p n t = \<lparr>fi_path = p, fi_size = n, fi_modified = t, fi_accessed = t, fi_created = t\<rparr>"

text \<open>
  A stand-in digest function that tells the two contents apart, the file information of
  the three files, the state a scan of them leaves, and the disk that holds them.
\<close>

definition toy_md5 :: "bytes \<Rightarrow> string" where
  "toy_md5 content = ''md5:'' @ content"

definition a_info :: file_info where
  "a_info = info ''/data/a.txt'' 1 1577836800"

definition b_info :: file_info where
  "b_info = info ''/data/b.txt'' 1 1672531200"

definition c_info :: file_info where
  "c_info = info ''/data/c.txt'' 1 1600000000"

definition scenario_dir :: "path \<times> tree" where
  "scenario_dir = (''/data'', Dir [''a.txt'', ''b.txt'', ''c.txt''] [])"

definition scanned_finder :: duplicate_finder where
  "scanned_finder =
     \<lparr>file_hashes = [(''md5:X'', [b_info, a_info]), (''md5:Y'', [c_info])],
      scanned_files = 3, total_files = 3,
      duplicates_found = [(''md5:X'', [b_info, a_info])],
      total_duplicate_size = 1\<rparr>"

definition scenario_disk :: filesystem where
  "scenario_disk = [''/data/a.txt'' \<mapsto> ''X'', ''/data/b.txt'' \<mapsto> ''X'', ''/data/c.txt'' \<mapsto> ''Y'']"




text \<open>
  A directory with the two equal files and with files that cannot be hashed: two equal
  ones of 200 MiB, one that grew past the cutoff after \<open>os.stat\<close>, one that cannot be
  read, and one that vanished.
\<close>

definition mixed_os :: finder_os where
  "mixed_os =
     \<lparr>os_stat = (\<lambda>p. if p = ''/data/a.txt'' then Inr (file_stat 1 1577836800)
                     else if p = ''/data/b.txt'' then Inr (file_stat 1 1672531200)
                     else if p = ''/data/huge1.bin'' \<or> p = ''/data/huge2.bin''
                       then Inr (file_stat 209715200 1600000000)
                     else if p = ''/data/grown.log'' then Inr (file_stat 10 1600000000)
                     else if p = ''/data/locked.db'' then Inr (file_stat 5 1600000000)
                     else Inl (FileNotFoundError p)),
      read_file = (\<lambda>p. if p = ''/data/a.txt'' \<or> p = ''/data/b.txt'' then Inr ''X''
                       else if p = ''/data/huge1.bin'' \<or> p = ''/data/huge2.bin''
                         then Inr (replicate 209715200 (CHR ''Z''))
                       else if p = ''/data/grown.log'' then Inr (replicate 104857601 (CHR ''g''))
                       else if p = ''/data/locked.db'' then Inl (PermissionError ''Permission denied'')
                       else Inl (FileNotFoundError p)),
      md5_hexdigest = toy_md5\<rparr>"

definition mixed_dir :: "path \<times> tree" where
  "mixed_dir =
     (''/data'', Dir [''a.txt'', ''b.txt'', ''huge1.bin'', ''huge2.bin'', ''grown.log'',
                      ''locked.db'', ''gone.txt''] [])"

section \<open>Properties of the structured-store mutator\<close>




section \<open>Properties of the temporary-file cleaner\<close>

lemmas string_simps = join_def startswith_def lower_def lower_char_def basename_def


lemma in_use_message_is_in_use: "is_in_use in_use_message"
  by (simp add: is_in_use_def in_use_message_def startswith_def)

lemma delete_with_retry_in_use:
  assumes "os_remove_at os p 0 = Some (PermissionError m0)" "is_in_use m0"
    and "os_remove_at os p 1 = Some (PermissionError m1)" "is_in_use m1"
    and "os_remove_at os p 2 = Some (PermissionError m2)"
  shows "delete_file_with_retry os p 3 = Inl (PermissionError m2)"
  using assms by (simp add: delete_file_with_retry_def eval_nat_numeral)

text \<open>
  C2 (as amended).  A file that passes the filters and whose \<open>os.remove\<close> raises the
  in-use \<open>PermissionError\<close> on all three attempts is not counted as skipped: the third
  error leaves \<open>_delete_file_with_retry\<close>, and \<open>_clean_directory_smart\<close> counts one
  permission error and one in-use error, and logs the file in \<open>errors\<close> while that list
  has fewer than five entries.
\<close>

theorem in_use_after_retries_is_error:
  assumes present: "os_path_exists os p"
    and old: "is_file_old_enough os min_file_age p"
    and plain: "\<not> is_system_critical_file p"
    and sized: "os_getsize os p = Inr file_size"
    and first: "os_remove_at os p 0 = Some (PermissionError m0)" "is_in_use m0"
    and second: "os_remove_at os p 1 = Some (PermissionError m1)" "is_in_use m1"
    and third: "os_remove_at os p 2 = Some (PermissionError m2)" "is_in_use m2"
  shows "delete_file_with_retry os p 3 = Inl (PermissionError m2)
       \<and> skipped_files (clean_file os min_file_age s p) = skipped_files s
       \<and> cleaned_files (clean_file os min_file_age s p) = cleaned_files s
       \<and> permission_errors (clean_file os min_file_age s p) = permission_errors s + 1
       \<and> in_use_errors (clean_file os min_file_age s p) = in_use_errors s + 1
       \<and> errors (clean_file os min_file_age s p)
           = (if length (errors s) < 5
              then errors s @ [''Cannot delete '' @ p @ '': '' @ m2]
              else errors s)"
proof -
  have raised: "delete_file_with_retry os p 3 = Inl (PermissionError m2)"
    using first second third(1) by (rule delete_with_retry_in_use)
  have "clean_file os min_file_age s p
          = on_error (s\<lparr>remove_calls := remove_calls s @ [p]\<rparr>) p (PermissionError m2)"
    using present old plain sized raised by (simp add: clean_file_def)
  with third(2) raised show ?thesis
    by (simp add: on_error_def)
qed

theorem in_use_after_retries_is_error_witness:
  "skipped_files (clean_file locked_os 3600000000 fresh_cleanup ''/tmp/a.tmp'') = 0
   \<and> permission_errors (clean_file locked_os 3600000000 fresh_cleanup ''/tmp/a.tmp'') = 1
   \<and> in_use_errors (clean_file locked_os 3600000000 fresh_cleanup ''/tmp/a.tmp'') = 1
   \<and> errors (clean_file locked_os 3600000000 fresh_cleanup ''/tmp/a.tmp'')
       = [''Cannot delete /tmp/a.tmp: '' @ in_use_message]"
proof -
  have present: "os_path_exists locked_os ''/tmp/a.tmp''"
    by (simp add: locked_os_def)
  have old: "is_file_old_enough locked_os 3600000000 ''/tmp/a.tmp''"
    by (simp add: locked_os_def is_file_old_enough_def)
  have plain: "\<not> is_system_critical_file ''/tmp/a.tmp''"
    by (simp add: is_system_critical_file_def critical_patterns_def critical_dirs_def string_simps)
  have sized: "os_getsize locked_os ''/tmp/a.tmp'' = Inr 10"
    by (simp add: locked_os_def)
  have locked: "os_remove_at locked_os ''/tmp/a.tmp'' k = Some (PermissionError in_use_message)" for k
    by (simp add: locked_os_def)
  from in_use_after_retries_is_error [OF present old plain sized locked in_use_message_is_in_use
      locked in_use_message_is_in_use locked in_use_message_is_in_use, of fresh_cleanup]
  show ?thesis
    by (simp add: fresh_cleanup_def)
qed

text \<open>
  C2 as stated (the file is counted as skipped, is not logged and raises no error count)
  fails on a temp directory whose single file is locked on every attempt.
\<close>

theorem in_use_after_retries_counted_skipped_counterexample:
  "os_remove_at locked_os ''/tmp/a.tmp'' 0 = Some (PermissionError in_use_message)
   \<and> os_remove_at locked_os ''/tmp/a.tmp'' 1 = Some (PermissionError in_use_message)
   \<and> os_remove_at locked_os ''/tmp/a.tmp'' 2 = Some (PermissionError in_use_message)
   \<and> is_in_use in_use_message
   \<and> skipped_files (clean_temp_files locked_os 3600000000 [(''/tmp'', Dir [''a.tmp''] [])]) = 0
   \<and> permission_errors (clean_temp_files locked_os 3600000000 [(''/tmp'', Dir [''a.tmp''] [])]) = 1
   \<and> in_use_errors (clean_temp_files locked_os 3600000000 [(''/tmp'', Dir [''a.tmp''] [])]) = 1
   \<and> errors (clean_temp_files locked_os 3600000000 [(''/tmp'', Dir [''a.tmp''] [])])
       = [''Cannot delete /tmp/a.tmp: '' @ in_use_message]"
proof -
  have present: "os_path_exists locked_os ''/tmp/a.tmp''"
    by (simp add: locked_os_def)
  have old: "is_file_old_enough locked_os 3600000000 ''/tmp/a.tmp''"
    by (simp add: locked_os_def is_file_old_enough_def)
  have plain: "\<not> is_system_critical_file ''/tmp/a.tmp''"
    by (simp add: is_system_critical_file_def critical_patterns_def critical_dirs_def string_simps)
  have sized: "os_getsize locked_os ''/tmp/a.tmp'' = Inr 10"
    by (simp add: locked_os_def)
  have locked: "os_remove_at locked_os ''/tmp/a.tmp'' k = Some (PermissionError in_use_message)" for k
    by (simp add: locked_os_def)
  have raised: "delete_file_with_retry locked_os ''/tmp/a.tmp'' 3 = Inl (PermissionError in_use_message)"
    using locked in_use_message_is_in_use locked in_use_message_is_in_use locked
    by (rule delete_with_retry_in_use)
  have run: "clean_temp_files locked_os 3600000000 [(''/tmp'', Dir [''a.tmp''] [])]
          = clean_file locked_os 3600000000 fresh_cleanup ''/tmp/a.tmp''"
    by (simp add: clean_temp_files_def clean_directory_smart_def join_def startswith_def)
  have "clean_file locked_os 3600000000 fresh_cleanup ''/tmp/a.tmp''
          = on_error (fresh_cleanup\<lparr>remove_calls := [''/tmp/a.tmp'']\<rparr>) ''/tmp/a.tmp''
              (PermissionError in_use_message)"
    using present old plain sized raised by (simp add: clean_file_def fresh_cleanup_def)
  with run locked in_use_message_is_in_use show ?thesis
    by (simp add: on_error_def fresh_cleanup_def)
qed








section \<open>Properties of the duplicate index\<close>

declare hash_chunks.simps [simp del]

lemma hash_chunks_result:
  "bytes_read \<le> max_file_size \<Longrightarrow>
   hash_chunks unread hashed bytes_read
     = (if bytes_read + length unread > max_file_size then None else Some (hashed @ unread))"
proof (induction unread hashed bytes_read rule: hash_chunks.induct)
  case (1 unread hashed bytes_read)
  show ?case
  proof (cases "unread = []")
    case True
    with "1.prems" show ?thesis
      by (subst hash_chunks.simps) simp
  next
    case False
    then have nonempty: "take 4096 unread \<noteq> []"
      by (cases unread) simp_all
    show ?thesis
    proof (cases "bytes_read + length (take 4096 unread) > max_file_size")
      case True
      then have "bytes_read + length unread > max_file_size"
        by simp
      with True nonempty show ?thesis
        by (subst hash_chunks.simps) (simp add: Let_def)
    next
      case within: False
      have split: "length (take 4096 unread) + length (drop 4096 unread) = length unread"
        by simp
      have step: "hash_chunks unread hashed bytes_read
                    = hash_chunks (drop 4096 unread) (hashed @ take 4096 unread)
                        (bytes_read + length (take 4096 unread))"
        using within nonempty by (subst hash_chunks.simps) (simp add: Let_def)
      have "hash_chunks (drop 4096 unread) (hashed @ take 4096 unread)
              (bytes_read + length (take 4096 unread))
            = (if bytes_read + length (take 4096 unread) + length (drop 4096 unread) > max_file_size
               then None else Some ((hashed @ take 4096 unread) @ drop 4096 unread))"
        using within nonempty by (intro "1.IH") simp_all
      with step split show ?thesis
        by (simp add: add.assoc del: length_take length_drop)
    qed
  qed
qed

lemma calculate_file_hash_Some:
  "calculate_file_hash os p = Some d \<longleftrightarrow>
     (\<exists>st content. os_stat os p = Inr st \<and> st_size st \<le> int max_file_size
        \<and> read_file os p = Inr content \<and> length content \<le> max_file_size
        \<and> d = md5_hexdigest os content)"
  by (auto simp: calculate_file_hash_def calculate_file_hash_try_def getsize_def
      hash_chunks_result split: sum.splits option.splits if_splits)

text \<open>
  C9.  A file whose size is exactly \<open>100 * 1024 * 1024\<close> bytes, by \<open>os.stat\<close> and by what
  is read, gets a digest: both size checks are strict.
\<close>

theorem hash_at_cutoff:
  assumes "os_stat os p = Inr st" and "st_size st = 100 * 1024 * 1024"
    and "read_file os p = Inr content" and "length content = 100 * 1024 * 1024"
  shows "calculate_file_hash os p = Some (md5_hexdigest os content)"
  using assms by (simp add: calculate_file_hash_Some max_file_size_def)

theorem hash_at_cutoff_witness:
  "st_size (file_stat 104857600 0) = 100 * 1024 * 1024
   \<and> length (replicate 104857600 (CHR ''a'')) = 100 * 1024 * 1024
   \<and> calculate_file_hash cutoff_os ''/data/big.bin''
       = Some (md5_hexdigest cutoff_os (replicate 104857600 (CHR ''a'')))"
proof -
  have st: "os_stat cutoff_os ''/data/big.bin'' = Inr (file_stat 104857600 0)"
    by (simp add: cutoff_os_def)
  have sz: "st_size (file_stat 104857600 0) = 100 * 1024 * 1024"
    by (simp add: file_stat_def)
  have rd: "read_file cutoff_os ''/data/big.bin'' = Inr (replicate 104857600 (CHR ''a''))"
    by (simp add: cutoff_os_def)
  have len: "length (replicate 104857600 (CHR ''a'')) = 100 * 1024 * 1024"
    by (simp only: length_replicate)
  from hash_at_cutoff [OF st sz rd len] sz len show ?thesis
    by blast
qed

lemma count_files_value:
  assumes "count \<le> max_files"
  shows "case count_files os ex ms d files count of
           Inl returned \<Rightarrow> returned = max_files
             \<and> max_files \<le> count + length (filter (is_candidate os ex ms d) files)
         | Inr count' \<Rightarrow> count' = count + length (filter (is_candidate os ex ms d) files)
             \<and> count' \<le> max_files"
  using assms
proof (induction files arbitrary: count)
  case Nil
  then show ?case by simp
next
  case (Cons name files)
  show ?case
  proof (cases "count \<ge> max_files")
    case True
    then show ?thesis by simp
  next
    case False
    then have below: "count < max_files" by simp
    show ?thesis
    proof (cases "is_candidate os ex ms d name")
      case True
      then have "count_files os ex ms d (name # files) count
                   = count_files os ex ms d files (count + 1)"
        using below by (auto simp: is_candidate_def split: sum.splits)
      moreover from below have "count + 1 \<le> max_files" by simp
      ultimately show ?thesis
        using Cons.IH [of "count + 1"] True by (auto split: sum.splits)
    next
      case False
      then have "count_files os ex ms d (name # files) count
                   = count_files os ex ms d files count"
        using below by (auto simp: is_candidate_def split: sum.splits)
      then show ?thesis
        using Cons.IH [OF Cons.prems] False by (auto split: sum.splits)
    qed
  qed
qed

lemma count_walk_value:
  "count \<le> max_files \<Longrightarrow>
   count_walk os ex ms w count = min (count + length (eligible_files os ex ms w)) max_files"
proof (induction w arbitrary: count)
  case Nil
  then show ?case by simp
next
  case (Cons entry w)
  obtain d dirs files where entry: "entry = (d, dirs, files)"
    by (cases entry)
  from count_files_value [OF Cons.prems, of os ex ms d files]
  show ?case
    unfolding entry using Cons.IH by (auto split: sum.splits)
qed

lemma count_files_in_directory_value:
  "count_files_in_directory os directory ex ms
     = min (length (eligible_files os ex ms (walk keep_dir (fst directory) (snd directory))))
         max_files"
  by (simp add: count_files_in_directory_def count_walk_value)

lemma scanned_record_file [simp]:
  "scanned_files (record_file os s p) = scanned_files s + 1"
  by (simp add: record_file_def Let_def split: option.splits)

lemma total_record_file [simp]:
  "total_files (record_file os s p) = total_files s"
  by (simp add: record_file_def Let_def split: option.splits)

lemma scan_files_scanned:
  "scanned_files s \<le> max_scan_files \<Longrightarrow>
   scanned_files (scan_files os ex ms d files s)
     = min (scanned_files s + length (filter (is_candidate os ex ms d) files)) max_scan_files"
proof (induction files arbitrary: s)
  case Nil
  then show ?case by simp
next
  case (Cons name files)
  show ?case
  proof (cases "scanned_files s \<ge> max_scan_files")
    case True
    with Cons.prems show ?thesis by simp
  next
    case False
    then have below: "scanned_files s < max_scan_files" by simp
    show ?thesis
    proof (cases "is_candidate os ex ms d name")
      case True
      then have "scan_files os ex ms d (name # files) s
                   = scan_files os ex ms d files (record_file os s (join d name))"
        using below by (auto simp: is_candidate_def split: sum.splits)
      moreover from below have "scanned_files (record_file os s (join d name)) \<le> max_scan_files"
        by simp
      ultimately show ?thesis
        using Cons.IH [of "record_file os s (join d name)"] True by simp
    next
      case False
      then have "scan_files os ex ms d (name # files) s = scan_files os ex ms d files s"
        using below by (auto simp: is_candidate_def split: sum.splits)
      then show ?thesis
        using Cons.IH [OF Cons.prems] False by simp
    qed
  qed
qed

lemma scan_walk_scanned:
  "scanned_files s \<le> max_scan_files \<Longrightarrow>
   scanned_files (scan_walk os ex ms w s)
     = min (scanned_files s + length (eligible_files os ex ms w)) max_scan_files"
proof (induction w arbitrary: s)
  case Nil
  then show ?case by simp
next
  case (Cons entry w)
  obtain d dirs files where entry: "entry = (d, dirs, files)"
    by (cases entry)
  let ?s' = "scan_files os ex ms d files s"
  have s': "scanned_files ?s'
              = min (scanned_files s + length (filter (is_candidate os ex ms d) files)) max_scan_files"
    using Cons.prems by (rule scan_files_scanned)
  show ?case
  proof (cases "scanned_files ?s' \<ge> max_scan_files")
    case True
    with s' show ?thesis unfolding entry by (simp add: Let_def)
  next
    case False
    with s' have le: "scanned_files ?s' \<le> max_scan_files" by simp
    from False s' Cons.IH [OF le] show ?thesis
      unfolding entry by (simp add: Let_def)
  qed
qed

lemma keys_append_to_bucket:
  "map fst (append_to_bucket h x hs)
     = (if h \<in> fst ` set hs then map fst hs else map fst hs @ [h])"
  by (induction hs) force+

lemma distinct_append_to_bucket:
  "distinct (map fst hs) \<Longrightarrow> distinct (map fst (append_to_bucket h x hs))"
  by (simp add: keys_append_to_bucket)

lemma member_append_to_bucket:
  "(k, b) \<in> set (append_to_bucket h x hs) \<Longrightarrow>
   (k, b) \<in> set hs \<or> (k = h \<and> (b = [x] \<or> (\<exists>b0. (h, b0) \<in> set hs \<and> b = b0 @ [x])))"
  by (induction hs) (auto split: if_splits)

lemma hashes_ok_append:
  assumes "hashes_ok os hs" and "recorded os h x"
  shows "hashes_ok os (append_to_bucket h x hs)"
proof -
  have "recorded os k y" if "(k, b) \<in> set (append_to_bucket h x hs)" and "y \<in> set b" for k b y
    using member_append_to_bucket [OF that(1)] that(2) assms
    by (fastforce simp: hashes_ok_def)
  with assms(1) show ?thesis
    by (auto simp: hashes_ok_def distinct_append_to_bucket)
qed

lemma get_file_info_path: "get_file_info os p = Some x \<Longrightarrow> fi_path x = p"
  by (auto simp: get_file_info_def split: sum.splits)

lemma hashes_ok_record_file:
  "hashes_ok os (file_hashes s) \<Longrightarrow> hashes_ok os (file_hashes (record_file os s p))"
  by (auto simp: record_file_def Let_def recorded_def get_file_info_path
      intro!: hashes_ok_append split: option.splits)

lemma record_file_frame [simp]:
  "total_duplicate_size (record_file os s p) = total_duplicate_size s"
  "duplicates_found (record_file os s p) = duplicates_found s"
  by (simp_all add: record_file_def Let_def split: option.splits)

lemma scan_files_frame:
  "hashes_ok os (file_hashes s) \<Longrightarrow> hashes_ok os (file_hashes (scan_files os ex ms d files s))"
  "total_files (scan_files os ex ms d files s) = total_files s"
  "total_duplicate_size (scan_files os ex ms d files s) = total_duplicate_size s"
  "duplicates_found (scan_files os ex ms d files s) = duplicates_found s"
  by (induction files arbitrary: s) (simp_all add: hashes_ok_record_file split: sum.splits)

lemma scan_walk_frame:
  "hashes_ok os (file_hashes s) \<Longrightarrow> hashes_ok os (file_hashes (scan_walk os ex ms w s))"
  "total_files (scan_walk os ex ms w s) = total_files s"
  "total_duplicate_size (scan_walk os ex ms w s) = total_duplicate_size s"
  "duplicates_found (scan_walk os ex ms w s) = duplicates_found s"
  by (induction w arbitrary: s) (auto simp: scan_files_frame Let_def)

lemma update_fresh: "k \<notin> fst ` set al \<Longrightarrow> AList.update k v al = al @ [(k, v)]"
  by (induction al) auto

lemma update_middle:
  "k \<notin> fst ` set pre \<Longrightarrow> AList.update k v (pre @ (k, w) # rest) = pre @ (k, v) # rest"
  by (induction pre) auto

lemma recorded_getmtime:
  "recorded os h x \<Longrightarrow> \<exists>t. getmtime os (fi_path x) = Inr t"
  by (auto simp: recorded_def get_file_info_def getmtime_def split: sum.splits)

lemma first_error_none:
  "(\<And>r. r \<in> set rs \<Longrightarrow> \<exists>v. r = Inr v) \<Longrightarrow> first_error rs = None"
proof (induction rs)
  case Nil
  show ?case by simp
next
  case (Cons r rs)
  from Cons.prems [of r] obtain v where r: "r = Inr v" by auto
  have "first_error rs = None"
    by (rule Cons.IH) (simp add: Cons.prems)
  then show ?case by (simp add: r)
qed

lemma sort_newest_first_ok:
  assumes "\<And>x. x \<in> set b \<Longrightarrow> recorded os h x"
  shows "sort_newest_first os b = Inr (sorted_bucket os b)"
proof -
  have "first_error (map (\<lambda>x. getmtime os (fi_path x)) b) = None"
    using assms by (intro first_error_none) (auto dest: recorded_getmtime)
  then show ?thesis
    by (simp add: sort_newest_first_def sorted_bucket_def)
qed

lemma find_duplicates_closed:
  assumes "file_hashes s = pre @ items"
    and "hashes_ok os (pre @ items)"
    and "fst ` set dups \<inter> fst ` set items = {}"
  shows "find_duplicates os items s dups
           = (s\<lparr>file_hashes := pre @ map (sort_if_dup os) items,
                total_duplicate_size := total_duplicate_size s + reclaimable (groups_of os items)\<rparr>,
              Inr (dups @ groups_of os items))"
  using assms
proof (induction items arbitrary: s dups pre)
  case Nil
  then show ?case
    by (simp add: groups_of_def reclaimable_def)
next
  case (Cons item items)
  obtain h b where item: "item = (h, b)" by (cases item)
  from Cons.prems(2) have fresh_pre: "h \<notin> fst ` set pre" and fresh_items: "h \<notin> fst ` set items"
    by (auto simp: hashes_ok_def item)
  show ?case
  proof (cases "length b > 1")
    case True
    let ?g = "sorted_bucket os b"
    let ?s1 = "s\<lparr>file_hashes := AList.update h ?g (file_hashes s),
                   total_duplicate_size := total_duplicate_size s + sum_list (map fi_size (tl ?g))\<rparr>"
    have sorted: "sort_newest_first os b = Inr ?g"
      using Cons.prems(2) by (intro sort_newest_first_ok [of b os h]) (auto simp: hashes_ok_def item)
    have set_g: "set ?g = set b"
      by (simp add: sorted_bucket_def)
    have fh1: "file_hashes ?s1 = (pre @ [(h, ?g)]) @ items"
      using Cons.prems(1) fresh_pre by (simp add: item update_middle)
    have ok1: "hashes_ok os ((pre @ [(h, ?g)]) @ items)"
      using Cons.prems(2) set_g by (auto simp: hashes_ok_def item)
    have h_new: "h \<notin> fst ` set dups"
      using Cons.prems(3) by (auto simp: item)
    then have dups1: "AList.update h ?g dups = dups @ [(h, ?g)]"
      by (rule update_fresh)
    have keys1: "fst ` set (dups @ [(h, ?g)]) \<inter> fst ` set items = {}"
      using Cons.prems(3) fresh_items by (auto simp: item)
    have step: "find_duplicates os (item # items) s dups
                  = find_duplicates os items ?s1 (dups @ [(h, ?g)])"
      using True sorted dups1 by (simp add: item)
    have groups: "groups_of os (item # items) = (h, ?g) # groups_of os items"
      using True by (simp add: groups_of_def sort_if_dup_def item)
    have sid: "sort_if_dup os item = (h, ?g)"
      using True by (simp add: sort_if_dup_def item)
    show ?thesis
      unfolding step Cons.IH [OF fh1 ok1 keys1]
      by (simp add: groups sid reclaimable_def)
  next
    case False
    have fh1: "file_hashes s = (pre @ [(h, b)]) @ items"
      using Cons.prems(1) by (simp add: item)
    have ok1: "hashes_ok os ((pre @ [(h, b)]) @ items)"
      using Cons.prems(2) by (simp add: item)
    have keys1: "fst ` set dups \<inter> fst ` set items = {}"
      using Cons.prems(3) by auto
    have step: "find_duplicates os (item # items) s dups = find_duplicates os items s dups"
      using False by (simp add: item)
    have groups: "groups_of os (item # items) = groups_of os items"
      using False by (simp add: groups_of_def item)
    have sid: "sort_if_dup os item = (h, b)"
      using False by (simp add: sort_if_dup_def item)
    show ?thesis
      unfolding step Cons.IH [OF fh1 ok1 keys1]
      by (simp add: groups sid)
  qed
qed

lemma max_files_positive: "0 < max_files" "max_scan_files = max_files"
  by (simp_all add: max_files_def max_scan_files_def)

lemma scan_directory_shape:
  obtains fh s3 where
    "hashes_ok os fh"
    "scan_directory os s directory ex ms
       = (s3\<lparr>file_hashes := map (sort_if_dup os) fh,
             total_duplicate_size := reclaimable (groups_of os fh),
             duplicates_found := groups_of os fh\<rparr>,
          Inr (groups_of os fh))"
    "scanned_files s3
       = min (length (eligible_files os ex ms (walk keep_dir (fst directory) (snd directory))))
           max_scan_files"
    "total_files s3
       = min (length (eligible_files os ex ms (walk keep_dir (fst directory) (snd directory))))
           max_files"
proof -
  let ?w = "walk keep_dir (fst directory) (snd directory)"
  let ?n = "length (eligible_files os ex ms ?w)"
  let ?s2 = "s\<lparr>file_hashes := [], scanned_files := 0, duplicates_found := [],
                 total_duplicate_size := 0,
                 total_files := count_files_in_directory os directory ex ms\<rparr>"
  have total: "total_files ?s2 = min ?n max_files"
    by (simp add: count_files_in_directory_value)
  show ?thesis
  proof (cases "total_files ?s2 = 0")
    case True
    with total max_files_positive have none: "?n = 0"
      by (simp add: min_def split: if_splits)
    have "scan_directory os s directory ex ms = (?s2, Inr [])"
      using True by (simp add: scan_directory_def Let_def)
    then have result: "scan_directory os s directory ex ms
       = (?s2\<lparr>file_hashes := map (sort_if_dup os) [],
             total_duplicate_size := reclaimable (groups_of os []),
             duplicates_found := groups_of os []\<rparr>,
          Inr (groups_of os []))"
      by (simp add: groups_of_def reclaimable_def)
    have empty: "hashes_ok os []"
      by (simp add: hashes_ok_def)
    have scanned: "scanned_files ?s2 = min ?n max_scan_files"
      using none by simp
    from empty result scanned total show ?thesis
      by (rule that)
  next
    case False
    let ?s3 = "scan_walk os ex ms ?w ?s2"
    let ?fh = "file_hashes ?s3"
    have ok: "hashes_ok os ?fh"
      by (rule scan_walk_frame(1)) (simp add: hashes_ok_def)
    have found: "find_duplicates os ?fh ?s3 []
           = (?s3\<lparr>file_hashes := [] @ map (sort_if_dup os) ?fh,
                total_duplicate_size := total_duplicate_size ?s3 + reclaimable (groups_of os ?fh)\<rparr>,
              Inr ([] @ groups_of os ?fh))"
      using ok by (intro find_duplicates_closed) simp_all
    have zero: "total_duplicate_size ?s3 = 0"
      by (simp add: scan_walk_frame)
    have result: "scan_directory os s directory ex ms
       = (?s3\<lparr>file_hashes := map (sort_if_dup os) ?fh,
             total_duplicate_size := reclaimable (groups_of os ?fh),
             duplicates_found := groups_of os ?fh\<rparr>,
          Inr (groups_of os ?fh))"
      using False found zero by (simp add: scan_directory_def Let_def)
    have scanned: "scanned_files ?s3 = min ?n max_scan_files"
      using scan_walk_scanned [of ?s2 os ex ms ?w] by simp
    have total3: "total_files ?s3 = min ?n max_files"
      using total by (simp add: scan_walk_frame)
    from ok result scanned total3 show ?thesis
      by (rule that)
  qed
qed

lemma get_file_info_size:
  "get_file_info os p = Some x \<Longrightarrow> \<exists>st. os_stat os p = Inr st \<and> fi_size x = st_size st"
  by (cases "os_stat os p") (auto simp: get_file_info_def)

lemma groups_of_member:
  "(h, g) \<in> set (groups_of os fh) \<longleftrightarrow>
     (\<exists>b. (h, b) \<in> set fh \<and> length b > 1 \<and> g = sorted_bucket os b)"
  by (force simp: groups_of_def sort_if_dup_def)

lemma sorted_bucket_facts [simp]:
  "length (sorted_bucket os b) = length b" "set (sorted_bucket os b) = set b"
  by (simp_all add: sorted_bucket_def)

lemma distinct_keys_same_bucket:
  "distinct (map fst hs) \<Longrightarrow> (k, b) \<in> set hs \<Longrightarrow> (k, b') \<in> set hs \<Longrightarrow> b = b'"
  by (meson eq_key_imp_eq_value)

lemma scan_directory_groups:
  assumes "scan_directory os s directory ex ms = (s', Inr duplicates)"
  obtains fh where "hashes_ok os fh" "duplicates = groups_of os fh"
    "file_hashes s' = map (sort_if_dup os) fh"
    "total_duplicate_size s' = reclaimable duplicates"
    "duplicates_found s' = duplicates"
proof -
  obtain fh s3 where ok: "hashes_ok os fh"
    and result: "scan_directory os s directory ex ms
       = (s3\<lparr>file_hashes := map (sort_if_dup os) fh,
             total_duplicate_size := reclaimable (groups_of os fh),
             duplicates_found := groups_of os fh\<rparr>,
          Inr (groups_of os fh))"
    by (rule scan_directory_shape)
  from result assms have "duplicates = groups_of os fh"
    and "s' = s3\<lparr>file_hashes := map (sort_if_dup os) fh,
             total_duplicate_size := reclaimable (groups_of os fh),
             duplicates_found := groups_of os fh\<rparr>"
    by simp_all
  then show ?thesis
    using ok by (intro that [of fh]) simp_all
qed

text \<open>
  C3.  Every group of the returned mapping has at least two members, is the bucket that
  \<open>file_hashes\<close> holds under the same digest, and each of its members hashes to that
  digest; a digest whose bucket holds exactly one file is not a key of the returned mapping.
\<close>

theorem scan_groups_are_duplicates:
  assumes "scan_directory os s directory ex ms = (s', Inr duplicates)"
  shows "(\<forall>(h, g) \<in> set duplicates.
            2 \<le> length g
          \<and> (h, g) \<in> set (file_hashes s')
          \<and> (\<forall>x \<in> set g. calculate_file_hash os (fi_path x) = Some h))
       \<and> (\<forall>(k, b) \<in> set (file_hashes s'). length b = 1 \<longrightarrow> k \<notin> fst ` set duplicates)"
proof -
  from assms obtain fh where ok: "hashes_ok os fh"
    and dups: "duplicates = groups_of os fh"
    and fh': "file_hashes s' = map (sort_if_dup os) fh"
    by (rule scan_directory_groups)
  have groups: "2 \<le> length g \<and> (h, g) \<in> set (file_hashes s')
      \<and> (\<forall>x \<in> set g. calculate_file_hash os (fi_path x) = Some h)"
    if "(h, g) \<in> set duplicates" for h g
  proof -
    from that dups obtain b where b: "(h, b) \<in> set fh" "length b > 1" "g = sorted_bucket os b"
      by (auto simp: groups_of_member)
    from b have "sort_if_dup os (h, b) = (h, g)"
      by (simp add: sort_if_dup_def)
    with b(1) have "(h, g) \<in> set (file_hashes s')"
      unfolding fh' by (metis image_eqI set_map)
    moreover from ok b have "\<forall>x \<in> set g. recorded os h x"
      by (auto simp: hashes_ok_def)
    ultimately show ?thesis
      using b by (auto simp: recorded_def)
  qed
  have singles: "k \<notin> fst ` set duplicates"
    if "(k, b) \<in> set (file_hashes s')" and "length b = 1" for k b
  proof
    assume "k \<in> fst ` set duplicates"
    then obtain g where "(k, g) \<in> set duplicates" by auto
    with dups obtain b2 where b2: "(k, b2) \<in> set fh" "length b2 > 1"
      by (auto simp: groups_of_member)
    from that(1) obtain b1 where b1: "(k, b1) \<in> set fh" "length b1 = length b"
      unfolding fh' by (auto simp: sort_if_dup_def split: if_splits)
    from ok b1(1) b2(1) have "b1 = b2"
      by (auto simp: hashes_ok_def dest: distinct_keys_same_bucket)
    with b1(2) b2(2) that(2) show False by simp
  qed
  from groups singles show ?thesis by blast
qed

text \<open>
  C5.  In every returned group, each member's modification time is at least that of the
  member after it.
\<close>

theorem scan_groups_newest_first:
  assumes "scan_directory os s directory ex ms = (s', Inr duplicates)"
    and "(h, g) \<in> set duplicates"
    and "Suc i < length g"
  shows "\<exists>newer older. getmtime os (fi_path (g ! i)) = Inr newer
           \<and> getmtime os (fi_path (g ! Suc i)) = Inr older
           \<and> older \<le> newer"
proof -
  from assms(1) obtain fh where ok: "hashes_ok os fh" and dups: "duplicates = groups_of os fh"
    by (rule scan_directory_groups)
  from assms(2) dups obtain b where b: "(h, b) \<in> set fh" "g = sorted_bucket os b"
    by (auto simp: groups_of_member)
  have known: "\<exists>t. getmtime os (fi_path x) = Inr t \<and> mtime_key os x = t" if "x \<in> set g" for x
  proof -
    from that ok b have "recorded os h x"
      by (auto simp: hashes_ok_def)
    then obtain t where "getmtime os (fi_path x) = Inr t"
      by (auto dest: recorded_getmtime)
    then show ?thesis by (simp add: mtime_key_def)
  qed
  have "sorted (map (\<lambda>x. - mtime_key os x) g)"
    unfolding b(2) sorted_bucket_def by (rule sorted_sort_key)
  then have "map (\<lambda>x. - mtime_key os x) g ! i \<le> map (\<lambda>x. - mtime_key os x) g ! Suc i"
    using assms(3) by (intro sorted_nth_mono) simp_all
  with assms(3) have order: "mtime_key os (g ! Suc i) \<le> mtime_key os (g ! i)"
    by simp
  from assms(3) have "g ! i \<in> set g" "g ! Suc i \<in> set g"
    by simp_all
  with known order show ?thesis
    by metis
qed


lemma delete_files_frame: "fst (delete_files denied selected state) = fst state"
proof (induction selected arbitrary: state)
  case Nil
  show ?case by simp
next
  case (Cons file_path selected)
  obtain s fs r where state: "state = (s, fs, r)"
    by (cases state)
  show ?case
    unfolding state by (simp add: Cons.IH Let_def split: option.splits sum.splits)
qed

text \<open>
  C10.  \<open>delete_selected_duplicates\<close> returns the finder it was given: \<open>file_hashes\<close>,
  \<open>duplicates_found\<close>, \<open>scanned_files\<close>, \<open>total_files\<close> and
  \<open>total_duplicate_size\<close> are unchanged, and \<open>get_duplicate_summary\<close> reports what it
  reported before the deletion.
\<close>

theorem delete_leaves_scan_state:
  "fst (delete_selected_duplicates denied s fs selected_files) = s
   \<and> file_hashes (fst (delete_selected_duplicates denied s fs selected_files)) = file_hashes s
   \<and> duplicates_found (fst (delete_selected_duplicates denied s fs selected_files)) = duplicates_found s
   \<and> scanned_files (fst (delete_selected_duplicates denied s fs selected_files)) = scanned_files s
   \<and> total_files (fst (delete_selected_duplicates denied s fs selected_files)) = total_files s
   \<and> total_duplicate_size (fst (delete_selected_duplicates denied s fs selected_files))
       = total_duplicate_size s
   \<and> get_duplicate_summary (fst (delete_selected_duplicates denied s fs selected_files))
       = get_duplicate_summary s"
  by (simp add: delete_selected_duplicates_def delete_files_frame)

lemma delete_a_run:
  "delete_selected_duplicates (\<lambda>p. None) scanned_finder scenario_disk [''/data/a.txt'']
     = (scanned_finder, scenario_disk(''/data/a.txt'' := None),
        \<lparr>deleted_files = 1, deleted_size = 1, delete_errors = []\<rparr>)"
  by (simp add: delete_selected_duplicates_def remove_file_def scenario_disk_def)

theorem delete_leaves_scan_state_witness:
  "fst (snd (delete_selected_duplicates (\<lambda>p. None) scanned_finder scenario_disk [''/data/a.txt''])) ''/data/a.txt'' = None
   \<and> deleted_files (snd (snd (delete_selected_duplicates (\<lambda>p. None) scanned_finder scenario_disk [''/data/a.txt'']))) = 1
   \<and> fst (delete_selected_duplicates (\<lambda>p. None) scanned_finder scenario_disk [''/data/a.txt'']) = scanned_finder
   \<and> total_duplicates (get_duplicate_summary
        (fst (delete_selected_duplicates (\<lambda>p. None) scanned_finder scenario_disk [''/data/a.txt'']))) = 1
   \<and> potential_savings_mb (get_duplicate_summary
        (fst (delete_selected_duplicates (\<lambda>p. None) scanned_finder scenario_disk [''/data/a.txt''])))
       = 1 / 1048576"
proof -
  have "get_duplicate_summary scanned_finder
          = \<lparr>total_duplicates = 1, duplicate_groups = 1, potential_savings_mb = 1 / 1048576,
             potential_savings_gb = 1 / 1073741824, summary_scanned_files = Some 3\<rparr>"
    by (simp add: get_duplicate_summary_def scanned_finder_def)
  with delete_leaves_scan_state [of "\<lambda>p. None" scanned_finder scenario_disk "[''/data/a.txt'']"]
  show ?thesis
    by (simp add: delete_a_run)
qed

lemmas finder_simps =
  scan_directory_def count_files_in_directory_def keep_dir_def skipped_dirs_def
  getsize_def getmtime_def extension_ok_def suffix_def record_file_def
  calculate_file_hash_def calculate_file_hash_try_def hash_chunks_result max_file_size_def
  get_file_info_def max_files_def max_scan_files_def sort_newest_first_def mtime_key_def
  file_stat_def info_def Let_def

lemma scenario_toy_run:
  "scan_directory (scenario_os toy_md5) new_finder scenario_dir None 0
     = (scanned_finder, Inr [(''md5:X'', [b_info, a_info])])"
  by (simp add: finder_simps string_simps scenario_os_def scenario_dir_def toy_md5_def
      new_finder_def scanned_finder_def a_info_def b_info_def c_info_def)

lemma three_orders:
  assumes "distinct xs" and "set xs = {a, b, c}" and "a \<noteq> b" and "a \<noteq> c" and "b \<noteq> c"
  shows "xs = [a, b, c] \<or> xs = [a, c, b] \<or> xs = [b, a, c] \<or> xs = [b, c, a]
       \<or> xs = [c, a, b] \<or> xs = [c, b, a]"
proof -
  have "length xs = card {a, b, c}"
    using assms(1,2) distinct_card by metis
  with assms(3-5) have "length xs = 3"
    by simp
  then obtain x y z where xyz: "xs = [x, y, z]"
    by (auto simp: length_Suc_conv numeral_3_eq_3)
  from assms(2) have "x \<in> {a, b, c}" "y \<in> {a, b, c}" "z \<in> {a, b, c}"
    unfolding xyz by auto
  with assms(1) show ?thesis
    unfolding xyz by auto
qed

lemma scenario_A_listed:
  assumes "md5 ''X'' \<noteq> []" and "md5 ''X'' \<noteq> md5 ''Y''" and "md5 ''Y'' \<noteq> md5 ''X''"
    and "files = [''a.txt'', ''b.txt'', ''c.txt''] \<or> files = [''a.txt'', ''c.txt'', ''b.txt'']
       \<or> files = [''b.txt'', ''a.txt'', ''c.txt''] \<or> files = [''b.txt'', ''c.txt'', ''a.txt'']
       \<or> files = [''c.txt'', ''a.txt'', ''b.txt''] \<or> files = [''c.txt'', ''b.txt'', ''a.txt'']"
  shows "\<exists>s'. scan_directory (scenario_os md5) s (''/data'', Dir files []) None 0
           = (s', Inr [(md5 ''X'', [b_info, a_info])])
         \<and> total_duplicate_size s' = fi_size a_info"
  using assms(4)
proof (elim disjE)
  assume "files = [''a.txt'', ''b.txt'', ''c.txt'']"
  with assms(1-3) show ?thesis
    by (simp add: finder_simps string_simps scenario_os_def a_info_def b_info_def)
next
  assume "files = [''a.txt'', ''c.txt'', ''b.txt'']"
  with assms(1-3) show ?thesis
    by (simp add: finder_simps string_simps scenario_os_def a_info_def b_info_def)
next
  assume "files = [''b.txt'', ''a.txt'', ''c.txt'']"
  with assms(1-3) show ?thesis
    by (simp add: finder_simps string_simps scenario_os_def a_info_def b_info_def)
next
  assume "files = [''b.txt'', ''c.txt'', ''a.txt'']"
  with assms(1-3) show ?thesis
    by (simp add: finder_simps string_simps scenario_os_def a_info_def b_info_def)
next
  assume "files = [''c.txt'', ''a.txt'', ''b.txt'']"
  with assms(1-3) show ?thesis
    by (simp add: finder_simps string_simps scenario_os_def a_info_def b_info_def)
next
  assume "files = [''c.txt'', ''b.txt'', ''a.txt'']"
  with assms(1-3) show ?thesis
    by (simp add: finder_simps string_simps scenario_os_def a_info_def b_info_def)
qed

lemma scenario_A:
  assumes "md5 ''X'' \<noteq> []" and "md5 ''X'' \<noteq> md5 ''Y''"
    and "distinct files" and "set files = {''a.txt'', ''b.txt'', ''c.txt''}"
  shows "\<exists>s'. scan_directory (scenario_os md5) s (''/data'', Dir files []) None 0
           = (s', Inr [(md5 ''X'', [b_info, a_info])])
         \<and> total_duplicate_size s' = fi_size a_info"
proof -
  from assms(2) have sym: "md5 ''Y'' \<noteq> md5 ''X''"
    by simp
  have "files = [''a.txt'', ''b.txt'', ''c.txt''] \<or> files = [''a.txt'', ''c.txt'', ''b.txt'']
       \<or> files = [''b.txt'', ''a.txt'', ''c.txt''] \<or> files = [''b.txt'', ''c.txt'', ''a.txt'']
       \<or> files = [''c.txt'', ''a.txt'', ''b.txt''] \<or> files = [''c.txt'', ''b.txt'', ''a.txt'']"
    using assms(3,4) by (rule three_orders) simp_all
  with assms(1,2) sym show ?thesis
    by (rule scenario_A_listed)
qed

text \<open>
  C4.  After a scan, \<open>total_duplicate_size\<close> is the sum of the sizes of all members but
  the first of each returned group.  For the directory with \<open>a.txt\<close> and \<open>b.txt\<close> of equal
  content, \<open>b.txt\<close> newer, and \<open>c.txt\<close> of another content, in any listing order,
  with no extension filter and minimum size 0, the scan returns exactly one group,
  \<open>b.txt\<close> then \<open>a.txt\<close>, and the reclaimable size is the size of \<open>a.txt\<close>; this for
  every digest function that tells the two contents apart.
\<close>

theorem reclaimable_is_all_but_first:
  "(scan_directory os s directory ex ms = (s', Inr duplicates)
      \<longrightarrow> total_duplicate_size s'
            = sum_list (map (\<lambda>group. sum_list (map fi_size (tl (snd group)))) duplicates))
   \<and> (md5 ''X'' \<noteq> [] \<and> md5 ''X'' \<noteq> md5 ''Y''
        \<and> distinct files \<and> set files = {''a.txt'', ''b.txt'', ''c.txt''}
      \<longrightarrow> (\<exists>s2. scan_directory (scenario_os md5) s (''/data'', Dir files []) None 0
                   = (s2, Inr [(md5 ''X'', [b_info, a_info])])
                 \<and> total_duplicate_size s2 = fi_size a_info))"
proof (intro conjI impI)
  assume "scan_directory os s directory ex ms = (s', Inr duplicates)"
  then obtain fh where "total_duplicate_size s' = reclaimable duplicates"
    by (rule scan_directory_groups)
  then show "total_duplicate_size s'
      = sum_list (map (\<lambda>group. sum_list (map fi_size (tl (snd group)))) duplicates)"
    by (simp add: reclaimable_def)
next
  assume "md5 ''X'' \<noteq> [] \<and> md5 ''X'' \<noteq> md5 ''Y''
        \<and> distinct files \<and> set files = {''a.txt'', ''b.txt'', ''c.txt''}"
  then show "\<exists>s2. scan_directory (scenario_os md5) s (''/data'', Dir files []) None 0
                   = (s2, Inr [(md5 ''X'', [b_info, a_info])])
                 \<and> total_duplicate_size s2 = fi_size a_info"
    by (intro scenario_A) simp_all
qed

theorem reclaimable_is_all_but_first_witness:
  "toy_md5 ''X'' \<noteq> [] \<and> toy_md5 ''X'' \<noteq> toy_md5 ''Y''
   \<and> distinct [''a.txt'', ''b.txt'', ''c.txt'']
   \<and> scan_directory (scenario_os toy_md5) new_finder scenario_dir None 0
       = (scanned_finder, Inr [(toy_md5 ''X'', [b_info, a_info])])
   \<and> total_duplicate_size scanned_finder
       = sum_list (map (\<lambda>group. sum_list (map fi_size (tl (snd group))))
           [(toy_md5 ''X'', [b_info, a_info])])
   \<and> total_duplicate_size scanned_finder = fi_size a_info"
proof -
  have run: "scan_directory (scenario_os toy_md5) new_finder scenario_dir None 0
       = (scanned_finder, Inr [(toy_md5 ''X'', [b_info, a_info])])"
    by (simp add: scenario_toy_run toy_md5_def)
  have md5: "toy_md5 ''X'' \<noteq> [] \<and> toy_md5 ''X'' \<noteq> toy_md5 ''Y''
      \<and> distinct [''a.txt'', ''b.txt'', ''c.txt'']
      \<and> set [''a.txt'', ''b.txt'', ''c.txt''] = {''a.txt'', ''b.txt'', ''c.txt''}"
    by (simp add: toy_md5_def)
  from reclaimable_is_all_but_first
    [of "scenario_os toy_md5" new_finder scenario_dir None 0 scanned_finder
        "[(toy_md5 ''X'', [b_info, a_info])]" toy_md5 "[''a.txt'', ''b.txt'', ''c.txt'']"]
    run md5
  show ?thesis
    by (simp add: scenario_dir_def)
qed

theorem scan_groups_are_duplicates_witness:
  "scan_directory (scenario_os toy_md5) new_finder scenario_dir None 0
       = (scanned_finder, Inr [(''md5:X'', [b_info, a_info])])
   \<and> 2 \<le> length [b_info, a_info]
   \<and> (''md5:X'', [b_info, a_info]) \<in> set (file_hashes scanned_finder)
   \<and> calculate_file_hash (scenario_os toy_md5) (fi_path b_info) = Some ''md5:X''
   \<and> calculate_file_hash (scenario_os toy_md5) (fi_path a_info) = Some ''md5:X''
   \<and> (''md5:Y'', [c_info]) \<in> set (file_hashes scanned_finder)
   \<and> ''md5:Y'' \<notin> fst ` set [(''md5:X'', [b_info, a_info])]"
  using scan_groups_are_duplicates [OF scenario_toy_run] scenario_toy_run
  by (simp add: scanned_finder_def)

theorem scan_groups_newest_first_witness:
  "(''md5:X'', [b_info, a_info]) \<in> set [(''md5:X'', [b_info, a_info])]
   \<and> Suc 0 < length [b_info, a_info]
   \<and> (\<exists>newer older. getmtime (scenario_os toy_md5) (fi_path ([b_info, a_info] ! 0)) = Inr newer
         \<and> getmtime (scenario_os toy_md5) (fi_path ([b_info, a_info] ! Suc 0)) = Inr older
         \<and> older \<le> newer)
   \<and> getmtime (scenario_os toy_md5) (fi_path b_info) = Inr 1672531200
   \<and> getmtime (scenario_os toy_md5) (fi_path a_info) = Inr 1577836800"
proof -
  have member: "(''md5:X'', [b_info, a_info]) \<in> set [(''md5:X'', [b_info, a_info])]"
    by simp
  have index: "Suc 0 < length [b_info, a_info]"
    by simp
  have times: "getmtime (scenario_os toy_md5) (fi_path b_info) = Inr 1672531200"
    "getmtime (scenario_os toy_md5) (fi_path a_info) = Inr 1577836800"
    by (simp_all add: getmtime_def scenario_os_def a_info_def b_info_def info_def file_stat_def)
  from scan_groups_newest_first [OF scenario_toy_run member index] member index times
  show ?thesis
    by blast
qed





text \<open>
  C8.  \<open>calculate_file_hash\<close> returns \<open>None\<close> when \<open>os.stat\<close> or reading raises, when
  the size exceeds the cutoff, and when more than the cutoff is read; every member of a
  returned group is a file whose size does not exceed the cutoff, so a file above the
  cutoff is a member of no group.
\<close>

theorem unhashable_files_are_left_out:
  "(os_stat os p1 = Inl e1 \<longrightarrow> calculate_file_hash os p1 = None)
   \<and> (read_file os p2 = Inl e2 \<longrightarrow> calculate_file_hash os p2 = None)
   \<and> (os_stat os p3 = Inr st \<and> int max_file_size < st_size st
        \<longrightarrow> calculate_file_hash os p3 = None)
   \<and> (read_file os p4 = Inr content \<and> max_file_size < length content
        \<longrightarrow> calculate_file_hash os p4 = None)
   \<and> (scan_directory os s directory ex ms = (s', Inr duplicates)
        \<and> (h, g) \<in> set duplicates \<and> x \<in> set g
        \<longrightarrow> (\<exists>st'. os_stat os (fi_path x) = Inr st' \<and> st_size st' \<le> int max_file_size
                \<and> fi_size x = st_size st'))
   \<and> (scan_directory os s directory ex ms = (s', Inr duplicates)
        \<and> (h, g) \<in> set duplicates
        \<and> os_stat os p3 = Inr st \<and> int max_file_size < st_size st
        \<longrightarrow> p3 \<notin> fi_path ` set g)"
proof -
  have none: "calculate_file_hash os p = None" if "\<And>d. calculate_file_hash os p \<noteq> Some d" for p
    using that by (cases "calculate_file_hash os p") auto
  have a: "os_stat os p1 = Inl e1 \<longrightarrow> calculate_file_hash os p1 = None"
    by (auto intro!: none simp: calculate_file_hash_Some)
  have b: "read_file os p2 = Inl e2 \<longrightarrow> calculate_file_hash os p2 = None"
    by (auto intro!: none simp: calculate_file_hash_Some)
  have c: "os_stat os p3 = Inr st \<and> int max_file_size < st_size st
             \<longrightarrow> calculate_file_hash os p3 = None"
    by (auto intro!: none simp: calculate_file_hash_Some)
  have d: "read_file os p4 = Inr content \<and> max_file_size < length content
             \<longrightarrow> calculate_file_hash os p4 = None"
    by (auto intro!: none simp: calculate_file_hash_Some)
  have e: "\<exists>st'. os_stat os (fi_path y) = Inr st' \<and> st_size st' \<le> int max_file_size
             \<and> fi_size y = st_size st'"
    if scan: "scan_directory os s directory ex ms = (s', Inr duplicates)"
      and member: "(h, g) \<in> set duplicates" "y \<in> set g" for y
  proof -
    from scan obtain fh where ok: "hashes_ok os fh" and dups: "duplicates = groups_of os fh"
      by (rule scan_directory_groups)
    from member dups obtain b where "(h, b) \<in> set fh" "y \<in> set b"
      by (auto simp: groups_of_member)
    with ok have "recorded os h y"
      by (auto simp: hashes_ok_def)
    then have hashed: "calculate_file_hash os (fi_path y) = Some h"
      and info: "get_file_info os (fi_path y) = Some y"
      by (simp_all add: recorded_def)
    from info obtain st' where "os_stat os (fi_path y) = Inr st'" "fi_size y = st_size st'"
      by (auto dest: get_file_info_size)
    with hashed show ?thesis
      by (auto simp: calculate_file_hash_Some)
  qed
  have f: "p3 \<notin> fi_path ` set g"
    if scan: "scan_directory os s directory ex ms = (s', Inr duplicates)"
      and member: "(h, g) \<in> set duplicates"
      and big: "os_stat os p3 = Inr st" "int max_file_size < st_size st"
  proof
    assume "p3 \<in> fi_path ` set g"
    then obtain y where y: "y \<in> set g" "fi_path y = p3" by auto
    from e [OF scan member y(1)] y(2) big show False by auto
  qed
  from a b c d e f show ?thesis by blast
qed

lemma mixed_run:
  "snd (scan_directory mixed_os new_finder mixed_dir None 0) = Inr [(''md5:X'', [b_info, a_info])]"
  by (simp add: finder_simps string_simps mixed_os_def mixed_dir_def toy_md5_def
      new_finder_def a_info_def b_info_def)

theorem unhashable_files_are_left_out_witness:
  "os_stat mixed_os ''/data/gone.txt'' = Inl (FileNotFoundError ''/data/gone.txt'')
   \<and> calculate_file_hash mixed_os ''/data/gone.txt'' = None
   \<and> read_file mixed_os ''/data/locked.db'' = Inl (PermissionError ''Permission denied'')
   \<and> calculate_file_hash mixed_os ''/data/locked.db'' = None
   \<and> os_stat mixed_os ''/data/huge1.bin'' = Inr (file_stat 209715200 1600000000)
   \<and> int max_file_size < st_size (file_stat 209715200 1600000000)
   \<and> calculate_file_hash mixed_os ''/data/huge1.bin'' = None
   \<and> read_file mixed_os ''/data/grown.log'' = Inr (replicate 104857601 (CHR ''g''))
   \<and> max_file_size < length (replicate 104857601 (CHR ''g''))
   \<and> calculate_file_hash mixed_os ''/data/grown.log'' = None
   \<and> snd (scan_directory mixed_os new_finder mixed_dir None 0) = Inr [(''md5:X'', [b_info, a_info])]
   \<and> (\<exists>st'. os_stat mixed_os (fi_path a_info) = Inr st' \<and> st_size st' \<le> int max_file_size
          \<and> fi_size a_info = st_size st')
   \<and> ''/data/huge1.bin'' \<notin> fi_path ` set [b_info, a_info]"
proof -
  obtain s' where run: "scan_directory mixed_os new_finder mixed_dir None 0
      = (s', Inr [(''md5:X'', [b_info, a_info])])"
    using mixed_run by (metis prod.collapse)
  have gone: "os_stat mixed_os ''/data/gone.txt'' = Inl (FileNotFoundError ''/data/gone.txt'')"
    by (simp add: mixed_os_def)
  have locked: "read_file mixed_os ''/data/locked.db'' = Inl (PermissionError ''Permission denied'')"
    by (simp add: mixed_os_def)
  have huge: "os_stat mixed_os ''/data/huge1.bin'' = Inr (file_stat 209715200 1600000000)
      \<and> int max_file_size < st_size (file_stat 209715200 1600000000)"
    by (simp add: mixed_os_def file_stat_def max_file_size_def)
  have grown: "read_file mixed_os ''/data/grown.log'' = Inr (replicate 104857601 (CHR ''g''))
      \<and> max_file_size < length (replicate 104857601 (CHR ''g''))"
    by (simp add: mixed_os_def max_file_size_def)
  have member: "(''md5:X'', [b_info, a_info]) \<in> set [(''md5:X'', [b_info, a_info])]
      \<and> a_info \<in> set [b_info, a_info]"
    by simp
  from unhashable_files_are_left_out
    [of mixed_os "''/data/gone.txt''" "FileNotFoundError ''/data/gone.txt''"
        "''/data/locked.db''" "PermissionError ''Permission denied''"
        "''/data/huge1.bin''" "file_stat 209715200 1600000000"
        "''/data/grown.log''" "replicate 104857601 (CHR ''g'')"
        new_finder mixed_dir None 0 s' "[(''md5:X'', [b_info, a_info])]"
        "''md5:X''" "[b_info, a_info]" a_info]
    run gone locked huge grown member mixed_run
  show ?thesis
    by simp
qed

end
